theory Spec2Isabelle
  imports Main
begin

section \<open>RackLink framing codec: shallow embedding of protocolUtils\<close>

text \<open>
  The TypeScript source works on \<open>number[]\<close> and \<open>string\<close>. Numbers that hold bytes are
  modelled as \<open>int\<close>; the bitwise operators of JavaScript first convert their operands to
  32-bit signed integers, which is written out below. Strings are \<open>string\<close>.
\<close>

subsection \<open>JavaScript primitives used by the source\<close>

definition ToInt32 :: "int \<Rightarrow> int" where
  "ToInt32 x = signed_take_bit 31 x"

text \<open>\<open>a & b\<close>\<close>

definition js_and :: "int \<Rightarrow> int \<Rightarrow> int" where
  "js_and a b = and (ToInt32 a) (ToInt32 b)"

text \<open>\<open>~a\<close>\<close>

definition js_not :: "int \<Rightarrow> int" where
  "js_not a = not (ToInt32 a)"

text \<open>\<open>xs[i]\<close>, which is \<open>undefined\<close> out of range.\<close>

definition js_index :: "'a list \<Rightarrow> nat \<Rightarrow> 'a option" where
  "js_index xs i = (if i < length xs then Some (xs ! i) else None)"

text \<open>\<open>xs.slice(start, end)\<close>: negative positions count from the end, both are clamped.\<close>

definition slice :: "'a list \<Rightarrow> int \<Rightarrow> int \<Rightarrow> 'a list" where
  "slice xs start end =
     (let n = int (length xs);
          s = (if start < 0 then max (n + start) 0 else min start n);
          e = (if end < 0 then max (n + end) 0 else min end n)
      in take (nat (e - s)) (drop (nat s) xs))"

subsection \<open>Protected values\<close>

definition HEADER :: int where "HEADER = 0xFE"
definition TAIL :: int where "TAIL = 0xFF"
definition ESCAPE :: int where "ESCAPE = 0xFD"

text \<open>\<open>Object.values(PROTECTED_VALUES)\<close>, in declaration order.\<close>

definition PROTECTED_VALUES :: "int list" where
  "PROTECTED_VALUES = [HEADER, TAIL, ESCAPE]"

subsection \<open>calculateChecksum\<close>

text \<open>The \<open>for\<close> loop adds every byte of \<open>data\<close> to the running sum.\<close>

fun checksumLoop :: "int \<Rightarrow> int list \<Rightarrow> int" where
  "checksumLoop acc [] = acc"
| "checksumLoop acc (byte # rest) = checksumLoop (acc + byte) rest"

definition calculateChecksum :: "int \<Rightarrow> int \<Rightarrow> int list \<Rightarrow> int" where
  "calculateChecksum header len data = js_and (checksumLoop (header + len) data) 0x7F"

subsection \<open>escapeData\<close>

fun escapeData :: "int list \<Rightarrow> int list" where
  "escapeData [] = []"
| "escapeData (byte # rest) =
     (if byte \<in> set PROTECTED_VALUES
      then ESCAPE # js_and (js_not byte) 0xFF # escapeData rest
      else byte # escapeData rest)"

subsection \<open>unescapeData\<close>

record unescape_result =
  unescaped :: "int list"
  breakdown :: "bool list"

text \<open>
  The index loop of the source, on the part of \<open>data\<close> from position \<open>i\<close> on: a one-element
  rest has no position \<open>i + 1\<close>, so its byte is pushed as it is, whatever its value.
\<close>

fun unescapeData :: "int list \<Rightarrow> unescape_result" where
  "unescapeData [] = \<lparr>unescaped = [], breakdown = []\<rparr>"
| "unescapeData [b] = \<lparr>unescaped = [b], breakdown = [False]\<rparr>"
| "unescapeData (b # nxt # rest) =
     (if b = ESCAPE
      then (let r = unescapeData rest
            in \<lparr>unescaped = js_and (js_not nxt) 0xFF # unescaped r,
                breakdown = True # breakdown r\<rparr>)
      else (let r = unescapeData (nxt # rest)
            in \<lparr>unescaped = b # unescaped r, breakdown = False # breakdown r\<rparr>))"

subsection \<open>Strings of digits\<close>

text \<open>
  \<open>Number.prototype.toString(radix)\<close> on an integer: the digits of its absolute value, most
  significant first, lower case, after a minus sign when it is negative.
\<close>

definition digitChar :: "nat \<Rightarrow> char" where
  "digitChar d = ''0123456789abcdefghijklmnopqrstuvwxyz'' ! d"

function natToString :: "nat \<Rightarrow> nat \<Rightarrow> string" where
  "natToString radix n =
     (if n < radix \<or> radix < 2 then [digitChar n]
      else natToString radix (n div radix) @ [digitChar (n mod radix)])"
  by pat_completeness auto
termination
  by (relation "measure (\<lambda>(radix, n). n)") auto

definition numToString :: "int \<Rightarrow> nat \<Rightarrow> string" where
  "numToString x radix =
     (if x < 0 then CHR ''-'' # natToString radix (nat (- x)) else natToString radix (nat x))"

definition padStart :: "string \<Rightarrow> nat \<Rightarrow> char \<Rightarrow> string" where
  "padStart s n c = replicate (n - length s) c @ s"

text \<open>\<open>toUpperCase\<close>, on the ASCII letters: the only letters the source applies it to.\<close>

definition toUpperChar :: "char \<Rightarrow> char" where
  "toUpperChar c =
     (let n = (of_char c :: nat) in if 97 \<le> n \<and> n \<le> 122 then char_of (n - 32) else c)"

definition toUpperCase :: "string \<Rightarrow> string" where
  "toUpperCase s = map toUpperChar s"

text \<open>\<open>strs.join(sep)\<close>\<close>

fun join :: "string \<Rightarrow> string list \<Rightarrow> string" where
  "join sep [] = []"
| "join sep [s] = s"
| "join sep (s # t # ts) = s @ sep @ join sep (t # ts)"

text \<open>The character class \<open>[0-9a-fA-F]\<close>.\<close>

definition isHexDigit :: "char \<Rightarrow> bool" where
  "isHexDigit c =
     (let n = (of_char c :: nat)
      in (48 \<le> n \<and> n \<le> 57) \<or> (97 \<le> n \<and> n \<le> 102) \<or> (65 \<le> n \<and> n \<le> 70))"

definition hexDigitValue :: "char \<Rightarrow> int" where
  "hexDigitValue c =
     (let n = (of_char c :: nat)
      in if 48 \<le> n \<and> n \<le> 57 then int n - 48
         else if 97 \<le> n \<and> n \<le> 102 then int n - 87
         else int n - 55)"

text \<open>
  \<open>parseInt(s, 16)\<close> on a non-empty string of hexadecimal digits, the only strings the
  source passes to it.
\<close>

definition parseInt16 :: "string \<Rightarrow> int" where
  "parseInt16 s = foldl (\<lambda>acc c. acc * 16 + hexDigitValue c) 0 s"

subsection \<open>hexToBytes, bytesToHex, asciiToBytes\<close>

text \<open>
  The loop over \<open>cleanHex\<close> in steps of two: \<open>substr(i, 2)\<close> is the two characters at
  \<open>i\<close>, or the single last one when only one is left. A character of \<open>string\<close> is one
  byte; the code units of a JavaScript string beyond that range are no hexadecimal digits
  and are removed by the source with all the others.
\<close>

fun hexPairs :: "string \<Rightarrow> int list" where
  "hexPairs [] = []"
| "hexPairs [c] = [parseInt16 [c]]"
| "hexPairs (c # d # rest) = parseInt16 [c, d] # hexPairs rest"

definition hexToBytes :: "string \<Rightarrow> int list" where
  "hexToBytes hx = (let cleanHex = filter isHexDigit hx in hexPairs cleanHex)"

definition bytesToHex :: "int list \<Rightarrow> string" where
  "bytesToHex bytes =
     join '' '' (map (\<lambda>b. toUpperCase (padStart (numToString b 16) 2 CHR ''0'')) bytes)"

definition asciiToBytes :: "string \<Rightarrow> int list" where
  "asciiToBytes str = map (\<lambda>char. of_char char) str"

subsection \<open>buildPacket\<close>

definition buildPacket :: "int list \<Rightarrow> string" where
  "buildPacket dataEnvelope =
     (let header = HEADER;
          tail = TAIL;
          len = int (length dataEnvelope);
          checksum = calculateChecksum header len dataEnvelope;
          escapedEnvelope = escapeData dataEnvelope;
          packetBytes = [header, len] @ escapedEnvelope @ [checksum, tail]
      in bytesToHex packetBytes)"

subsection \<open>CommandCode and SubCommand\<close>

text \<open>
  The two numeric enums. Their members are numbers, compared with bytes taken from the wire;
  \<open>CommandCode[cmd]\<close> is the reverse mapping from a number to the member's name,
  \<open>undefined\<close> for a number that is no member.
\<close>

definition CommandCode_PING :: int where "CommandCode_PING = 0x01"
definition CommandCode_LOGIN :: int where "CommandCode_LOGIN = 0x02"
definition CommandCode_POWER_OUTLETS :: int where "CommandCode_POWER_OUTLETS = 0x20"
definition CommandCode_OUTLET_NAME :: int where "CommandCode_OUTLET_NAME = 0x21"

definition CommandCode :: "(int \<times> string) list" where
  "CommandCode =
     [(0x01, ''PING''), (0x02, ''LOGIN''), (0x10, ''NACK''), (0x20, ''POWER_OUTLETS''),
      (0x21, ''OUTLET_NAME''), (0x22, ''OUTLET_COUNT''), (0x23, ''ENERGY_MGMT''),
      (0x30, ''DRY_CONTACTS''), (0x31, ''CONTACT_NAME''), (0x32, ''CONTACT_COUNT''),
      (0x36, ''SEQUENCE''), (0x37, ''EPO''), (0x40, ''LOG_ALERTS''), (0x41, ''STATUS_CHANGE''),
      (0x50, ''SENSORS_START''), (0x61, ''SENSORS_END''), (0x70, ''THRESHOLDS_START''),
      (0x77, ''THRESHOLDS_END''), (0x80, ''READ_LOG''), (0x81, ''LOG_COUNT''),
      (0x82, ''CLEAR_LOG''), (0x90, ''PRODUCT_PART''), (0x91, ''PRODUCT_RATING''),
      (0x93, ''PRODUCT_SURGE''), (0x94, ''PRODUCT_IP''), (0x95, ''PRODUCT_MAC'')]"

definition SubCommand_SET :: int where "SubCommand_SET = 0x01"
definition SubCommand_GET :: int where "SubCommand_GET = 0x02"
definition SubCommand_RESPONSE :: int where "SubCommand_RESPONSE = 0x10"

definition SubCommand :: "(int \<times> string) list" where
  "SubCommand =
     [(0x01, ''SET''), (0x02, ''GET''), (0x10, ''RESPONSE''), (0x12, ''STATUS_UPDATE''),
      (0x30, ''LOG_UPDATE'')]"

text \<open>\<open>table[code] || fallback\<close>: every name in the tables is a non-empty string.\<close>

definition nameOr :: "(int \<times> string) list \<Rightarrow> int \<Rightarrow> string \<Rightarrow> string" where
  "nameOr table code fallback = (case map_of table code of None \<Rightarrow> fallback | Some n \<Rightarrow> n)"

text \<open>\<open>x || d\<close> on a number that may be \<open>undefined\<close>: the default replaces \<open>undefined\<close> and 0.\<close>

definition numOr :: "int option \<Rightarrow> int \<Rightarrow> int" where
  "numOr x d = (case x of None \<Rightarrow> d | Some v \<Rightarrow> if v = 0 then d else v)"

subsection \<open>simulateResponse\<close>

text \<open>\<open>null\<close> is \<open>None\<close>. The \<open>switch\<close> is the chain of comparisons, in the order of its cases.\<close>

definition simulateResponse :: "string \<Rightarrow> string option" where
  "simulateResponse requestHex =
     (let bytes = hexToBytes requestHex in
      if length bytes < 5 then None
      else
        let envelopeWithEscapes = slice bytes 2 (int (length bytes) - 2);
            u = unescaped (unescapeData envelopeWithEscapes)
        in if length u < 3 then None
           else
             let dest = u ! 0;
                 cmd = u ! 1;
                 sub = u ! 2;
                 responseEnvelope = [0x00, cmd, SubCommand_RESPONSE]
             in if cmd = CommandCode_LOGIN then
                  Some (buildPacket (responseEnvelope @ [0x01]))
                else if cmd = CommandCode_OUTLET_NAME then
                  (if sub = SubCommand_GET
                   then Some (buildPacket (responseEnvelope @ [numOr (js_index u 3) 0x01]
                                            @ asciiToBytes ''Outlet 1''))
                   else Some (buildPacket responseEnvelope))
                else if cmd = CommandCode_POWER_OUTLETS then
                  Some (buildPacket (responseEnvelope @ [numOr (js_index u 3) 0x01] @ [0x01]))
                else if cmd = CommandCode_PING then
                  Some (buildPacket [0x00, CommandCode_PING, SubCommand_RESPONSE])
                else None)"

subsection \<open>parsePacket\<close>

text \<open>
  The entries of the breakdown. The optional field \<open>isEscaped\<close> of the interface is never
  set by \<open>parsePacket\<close> and is left out.
\<close>

record PacketBreakdown =
  label :: string
  hex :: string
  description :: string

text \<open>The block under \<open>if (unescaped.length >= 2)\<close>.\<close>

definition fieldEntries :: "int list \<Rightarrow> PacketBreakdown list" where
  "fieldEntries u =
     (let dest = u ! 0;
          cmd = u ! 1;
          sub = js_index u 2;
          cmdName = nameOr CommandCode cmd ''Unknown Command''
      in [\<lparr>label = ''Destination'', hex = bytesToHex [dest],
           description = (if dest = 0 then ''Broadcast/Device''
                          else ''Target '' @ numToString dest 10)\<rparr>,
          \<lparr>label = ''Command'', hex = bytesToHex [cmd],
           description = cmdName @ '' (0x'' @ padStart (numToString cmd 16) 2 CHR ''0'' @ '')''\<rparr>]
         @ (case sub of
              None \<Rightarrow> []
            | Some sb \<Rightarrow>
                [\<lparr>label = ''Subcommand/Param'', hex = bytesToHex [sb],
                  description = nameOr SubCommand sb ''Param/Data''\<rparr>]))"

definition parsePacket :: "string \<Rightarrow> PacketBreakdown list" where
  "parsePacket hx =
     (let bytes = hexToBytes hx in
      if length bytes < 5 then []
      else
        let rawLength = bytes ! 1;
            envelopeWithEscapes = slice bytes 2 (int (length bytes) - 2);
            u = unescaped (unescapeData envelopeWithEscapes);
            checksum = bytes ! (length bytes - 2);
            expectedChecksum = calculateChecksum (bytes ! 0) rawLength u;
            tail = bytes ! (length bytes - 1)
        in [\<lparr>label = ''Header'', hex = bytesToHex [bytes ! 0],
             description = (if bytes ! 0 = HEADER then ''Valid Start Character (0xFE)''
                            else ''INVALID Header'')\<rparr>,
            \<lparr>label = ''Length'', hex = bytesToHex [bytes ! 1],
             description = ''Payload Data Length: '' @ numToString rawLength 10 @ '' bytes''\<rparr>,
            \<lparr>label = ''Data Envelope'', hex = bytesToHex envelopeWithEscapes,
             description = ''Unescaped Payload: ['' @ bytesToHex u @ '']''\<rparr>]
           @ (if length u \<ge> 2 then fieldEntries u else [])
           @ [\<lparr>label = ''Checksum'', hex = bytesToHex [checksum],
               description = (if checksum = expectedChecksum then ''Valid Checksum''
                              else ''Invalid! Expected 0x''
                                   @ toUpperCase (numToString expectedChecksum 16))\<rparr>,
              \<lparr>label = ''Tail'', hex = bytesToHex [tail],
               description = (if tail = TAIL then ''Valid End Character (0xFF)''
                              else ''INVALID Tail'')\<rparr>])"

subsection \<open>Bytes\<close>

text \<open>The values a byte can take: the contract of every function above on its inputs.\<close>

definition isByte :: "int \<Rightarrow> bool" where
  "isByte b = (0 \<le> b \<and> b \<le> 255)"

subsection \<open>Auxiliary notions\<close>

text \<open>The upper-case hexadecimal digit of a value below 16.\<close>

definition upperHexChar :: "nat \<Rightarrow> char" where
  "upperHexChar d = ''0123456789ABCDEF'' ! d"

text \<open>The text \<open>bytesToHex\<close> produces for one byte.\<close>

definition hex2 :: "int \<Rightarrow> string" where
  "hex2 b = toUpperCase (padStart (numToString b 16) 2 CHR ''0'')"

text \<open>The byte list \<open>buildPacket\<close> renders as text.\<close>

definition packetBytes :: "int list \<Rightarrow> int list" where
  "packetBytes envelope =
     [HEADER, int (length envelope)] @ escapeData envelope
       @ [calculateChecksum HEADER (int (length envelope)) envelope, TAIL]"

text \<open>
  The unescaped envelope of a frame given as text, as \<open>simulateResponse\<close> and
  \<open>parsePacket\<close> both compute it.
\<close>

definition requestEnvelope :: "string \<Rightarrow> int list" where
  "requestEnvelope hx =
     (let bytes = hexToBytes hx
      in unescaped (unescapeData (slice bytes 2 (int (length bytes) - 2))))"

section \<open>Properties\<close>

subsection \<open>Bitwise operators on bytes\<close>

lemma ToInt32_small: "- (2 ^ 31) \<le> x \<Longrightarrow> x < 2 ^ 31 \<Longrightarrow> ToInt32 x = x"
  unfolding ToInt32_def by (rule signed_take_bit_int_eq_self)

lemma js_and_low7: "js_and s 0x7F = s mod 128"
proof -
  have "and (signed_take_bit 31 s) (mask 7) = take_bit 7 (signed_take_bit 31 s)"
    by (simp add: take_bit_eq_mask)
  also have "\<dots> = take_bit 7 s"
    by (simp add: take_bit_signed_take_bit)
  also have "\<dots> = s mod 128"
    by (simp add: take_bit_eq_mod)
  finally have "and (signed_take_bit 31 s) 127 = s mod 128"
    by (simp add: mask_eq_exp_minus_1)
  moreover have "ToInt32 0x7F = 0x7F"
    by (rule ToInt32_small) simp_all
  ultimately show ?thesis
    by (simp add: js_and_def ToInt32_def)
qed

lemma js_complement_byte:
  assumes "0 \<le> b" "b \<le> 255"
  shows "js_and (js_not b) 0xFF = 255 - b"
proof -
  have b32: "ToInt32 b = b"
    using assms by (intro ToInt32_small) simp_all
  have n32: "ToInt32 (- b - 1) = - b - 1"
    using assms by (intro ToInt32_small) simp_all
  have m32: "ToInt32 0xFF = 0xFF"
    by (rule ToInt32_small) simp_all
  have "and (- b - 1) (mask 8) = take_bit 8 (- b - 1)"
    by (simp add: take_bit_eq_mask)
  also have "\<dots> = (- b - 1) mod 256"
    by (simp add: take_bit_eq_mod)
  also have "\<dots> = ((255 - b) - 256) mod 256"
  proof -
    have "- b - 1 = (255 - b) - 256" by arith
    then show ?thesis by (rule arg_cong [where f = "\<lambda>x. x mod 256"])
  qed
  also have "\<dots> = (255 - b) mod 256"
    by (rule minus_mod_self2)
  also have "\<dots> = 255 - b"
    using assms by (intro mod_pos_pos_trivial) simp_all
  finally have "and (- b - 1) 255 = 255 - b"
    by (simp add: mask_eq_exp_minus_1)
  then show ?thesis
    by (simp add: js_and_def js_not_def b32 n32 m32 not_int_def)
qed

lemma checksumLoop_sum: "checksumLoop acc xs = acc + sum_list xs"
  by (induction xs arbitrary: acc) simp_all


subsection \<open>Escaping\<close>

lemma unescape_literal:
  "b \<noteq> ESCAPE \<Longrightarrow> unescaped (unescapeData (b # ys)) = b # unescaped (unescapeData ys)"
  by (cases ys) (simp_all add: Let_def)

lemma unescape_pair:
  "unescaped (unescapeData (ESCAPE # n # ys)) = js_and (js_not n) 0xFF # unescaped (unescapeData ys)"
  by (simp add: Let_def)

lemma protected_cases: "b \<in> set PROTECTED_VALUES \<longleftrightarrow> b = 0xFE \<or> b = 0xFF \<or> b = 0xFD"
  by (auto simp: PROTECTED_VALUES_def HEADER_def TAIL_def ESCAPE_def)

lemma complement_twice:
  assumes "b \<in> set PROTECTED_VALUES"
  shows "js_and (js_not (js_and (js_not b) 0xFF)) 0xFF = b"
proof -
  have r: "0 \<le> b" "b \<le> 255"
    using assms by (auto simp: protected_cases)
  have c: "js_and (js_not b) 0xFF = 255 - b"
    using r by (rule js_complement_byte)
  have "js_and (js_not (255 - b)) 0xFF = 255 - (255 - b)"
    using r by (intro js_complement_byte) simp_all
  then show ?thesis
    by (simp add: c)
qed

lemma unescape_escape: "unescaped (unescapeData (escapeData xs)) = xs"
proof (induction xs)
  case Nil
  show ?case by simp
next
  case (Cons b xs)
  show ?case
  proof (cases "b \<in> set PROTECTED_VALUES")
    case True
    then show ?thesis
      using Cons.IH by (simp add: unescape_pair complement_twice del: unescapeData.simps)
  next
    case False
    then have "b \<noteq> ESCAPE"
      by (auto simp: PROTECTED_VALUES_def)
    with False show ?thesis
      using Cons.IH by (simp add: unescape_literal del: unescapeData.simps)
  qed
qed

subsection \<open>Checksum\<close>

text \<open>
  C2. For a header byte, a length byte and envelope bytes, all in 0..255, the checksum is
  the sum of the header, the length and the envelope bytes modulo 128, and it lies in 0..127.
\<close>

theorem checksum_formula:
  assumes "isByte header" and "isByte len" and "\<forall>b \<in> set data. isByte b"
  shows "calculateChecksum header len data = (header + len + sum_list data) mod 128
         \<and> 0 \<le> calculateChecksum header len data
         \<and> calculateChecksum header len data \<le> 127"
proof -
  have "calculateChecksum header len data = (header + len + sum_list data) mod 128"
    by (simp add: calculateChecksum_def js_and_low7 checksumLoop_sum)
  then show ?thesis
    by simp
qed

theorem checksum_formula_witness:
  "isByte 0xFE \<and> isByte 3 \<and> isByte 0x00 \<and> isByte 0x21 \<and> isByte 0x02
   \<and> calculateChecksum 0xFE 3 [0x00, 0x21, 0x02] = 0x24"
proof -
  have h: "isByte 0xFE" "isByte 3" "\<forall>b \<in> set [0x00, 0x21, 0x02]. isByte b"
    by (simp_all add: isByte_def)
  from checksum_formula [OF h] show ?thesis
    using h by simp
qed

subsection \<open>Escaping one byte\<close>

text \<open>
  C3. Escaping a single byte and unescaping the result gives the byte back. A protected
  byte is escaped to the escape byte 0xFD followed by its one's complement within eight bits,
  and that pair unescapes to the byte.
\<close>

theorem escape_unescape_byte:
  assumes "isByte b"
  shows "unescaped (unescapeData (escapeData [b])) = [b]
         \<and> (b \<in> set PROTECTED_VALUES \<longrightarrow>
              escapeData [b] = [0xFD, js_and (js_not b) 0xFF]
              \<and> js_and (js_not b) 0xFF = 255 - b
              \<and> unescaped (unescapeData [0xFD, js_and (js_not b) 0xFF]) = [b])"
proof -
  have one: "unescaped (unescapeData (escapeData [b])) = [b]"
    by (rule unescape_escape)
  have two: "escapeData [b] = [0xFD, js_and (js_not b) 0xFF]" if "b \<in> set PROTECTED_VALUES"
    using that by (simp add: ESCAPE_def)
  have three: "js_and (js_not b) 0xFF = 255 - b"
    using assms unfolding isByte_def by (intro js_complement_byte) simp_all
  have four: "unescaped (unescapeData [0xFD, js_and (js_not b) 0xFF]) = [b]"
    if "b \<in> set PROTECTED_VALUES"
    using one two [OF that] by simp
  show ?thesis
    using one two three four by blast
qed

theorem escape_unescape_byte_witness:
  "isByte 0xFE \<and> 0xFE \<in> set PROTECTED_VALUES
   \<and> unescaped (unescapeData (escapeData [0xFE])) = [0xFE]
   \<and> escapeData [0xFE] = [0xFD, 0x01]"
proof -
  have h: "isByte 0xFE"
    by (simp add: isByte_def)
  have p: "0xFE \<in> set PROTECTED_VALUES"
    by (simp add: protected_cases)
  note t = escape_unescape_byte [OF h]
  from t have a: "unescaped (unescapeData (escapeData [0xFE])) = [0xFE]"
    by (rule conjunct1)
  from t p have b: "escapeData [0xFE] = [0xFD, js_and (js_not 0xFE) 0xFF]"
    and c: "js_and (js_not 0xFE) 0xFF = 255 - 0xFE"
    by blast+
  from b c have "escapeData [0xFE] = [0xFD, 0x01]"
    by simp
  with h p a show ?thesis
    by blast
qed

subsection \<open>Hexadecimal text\<close>

lemma hex_digit_table:
  "\<forall>n \<in> set [0..<16]. toUpperChar (digitChar n) = upperHexChar n
      \<and> isHexDigit (upperHexChar n) \<and> hexDigitValue (upperHexChar n) = int n"
  by code_simp

lemma hex_digit:
  assumes "n < 16"
  shows "toUpperChar (digitChar n) = upperHexChar n"
    and "isHexDigit (upperHexChar n)"
    and "hexDigitValue (upperHexChar n) = int n"
  using assms hex_digit_table by auto

lemma natToString16_byte:
  assumes "n < 256"
  shows "padStart (natToString 16 n) 2 CHR ''0'' = [digitChar (n div 16), digitChar (n mod 16)]"
proof (cases "n < 16")
  case True
  then show ?thesis
    by (simp add: padStart_def digitChar_def)
next
  case False
  have "n div 16 < 16"
    using assms by simp
  then have "natToString 16 (n div 16) = [digitChar (n div 16)]"
    by simp
  with False show ?thesis
    by (simp add: padStart_def)
qed

lemma hex2_byte:
  assumes "isByte b"
  shows "hex2 b = [upperHexChar (nat b div 16), upperHexChar (nat b mod 16)]"
proof -
  have n: "nat b < 256" and p: "\<not> b < 0"
    using assms unfolding isByte_def by linarith+
  have d: "nat b div 16 < 16" "nat b mod 16 < 16"
    using n by simp_all
  show ?thesis
    using p by (simp add: hex2_def numToString_def natToString16_byte [OF n] toUpperCase_def
        hex_digit(1) [OF d(1)] hex_digit(1) [OF d(2)] del: natToString.simps)
qed

lemma parse_hex2:
  assumes "isByte b"
  shows "parseInt16 (hex2 b) = b"
proof -
  have n: "nat b < 256" and p: "0 \<le> b"
    using assms unfolding isByte_def by linarith+
  have d: "nat b div 16 < 16" "nat b mod 16 < 16"
    using n by simp_all
  have "int (nat b div 16) * 16 + int (nat b mod 16) = int (nat b)"
    by (simp add: zdiv_int zmod_int)
  then show ?thesis
    using p by (simp add: hex2_byte [OF assms] parseInt16_def hex_digit(3) [OF d(1)] hex_digit(3) [OF d(2)])
qed


lemma bytesToHex_hex2: "bytesToHex bs = join '' '' (map hex2 bs)"
  by (simp add: bytesToHex_def hex2_def [abs_def])

lemma filter_hex2:
  assumes "isByte b"
  shows "filter isHexDigit (hex2 b) = hex2 b"
proof -
  have "nat b < 256"
    using assms unfolding isByte_def by linarith
  then have d: "nat b div 16 < 16" "nat b mod 16 < 16"
    by simp_all
  show ?thesis
    by (simp add: hex2_byte [OF assms] hex_digit(2) [OF d(1)] hex_digit(2) [OF d(2)])
qed

lemma space_not_hex: "\<not> isHexDigit CHR '' ''"
  by (simp add: isHexDigit_def)

lemma filter_join_hex2:
  "\<forall>b \<in> set bs. isByte b \<Longrightarrow>
     filter isHexDigit (join '' '' (map hex2 bs)) = concat (map hex2 bs)"
proof (induction bs rule: induct_list012)
  case 1
  show ?case by simp
next
  case (2 b)
  then show ?case by (simp add: filter_hex2)
next
  case (3 b c bs)
  then show ?case by (simp add: filter_hex2 space_not_hex)
qed

lemma hexPairs_hex2:
  "\<forall>b \<in> set bs. isByte b \<Longrightarrow> hexPairs (concat (map hex2 bs)) = bs"
proof (induction bs)
  case Nil
  show ?case by simp
next
  case (Cons b bs)
  then have b: "isByte b" by simp
  have "parseInt16 [upperHexChar (nat b div 16), upperHexChar (nat b mod 16)] = b"
    using parse_hex2 [OF b] by (simp add: hex2_byte [OF b])
  with Cons show ?case
    by (simp add: hex2_byte [OF b])
qed

lemma hexToBytes_bytesToHex:
  assumes "\<forall>b \<in> set bs. isByte b"
  shows "hexToBytes (bytesToHex bs) = bs"
  using assms by (simp add: hexToBytes_def bytesToHex_hex2 filter_join_hex2 hexPairs_hex2)

lemma isByte_complement:
  assumes "isByte b"
  shows "isByte (js_and (js_not b) 0xFF)"
proof -
  have r: "0 \<le> b" "b \<le> 255"
    using assms unfolding isByte_def by blast+
  have "js_and (js_not b) 0xFF = 255 - b"
    using r by (rule js_complement_byte)
  then show ?thesis
    using r unfolding isByte_def by linarith
qed

lemma isByte_ESCAPE: "isByte ESCAPE"
  by (simp add: isByte_def ESCAPE_def)

lemma isByte_escapeData:
  "\<forall>b \<in> set xs. isByte b \<Longrightarrow> \<forall>b \<in> set (escapeData xs). isByte b"
proof (induction xs)
  case Nil
  show ?case by simp
next
  case (Cons b xs)
  then have b: "isByte b" and ih: "\<forall>b \<in> set (escapeData xs). isByte b"
    by simp_all
  show ?case
    using b ih isByte_complement [OF b] isByte_ESCAPE by simp
qed

lemma isByte_checksum: "isByte (calculateChecksum h l d)"
  by (simp add: calculateChecksum_def js_and_low7 isByte_def)

lemma length_escapeData: "length xs \<le> length (escapeData xs)"
  by (induction xs) auto

lemma buildPacket_packetBytes: "buildPacket envelope = bytesToHex (packetBytes envelope)"
  by (simp add: buildPacket_def packetBytes_def Let_def)

lemma hexToBytes_buildPacket:
  assumes "\<forall>b \<in> set envelope. isByte b" and "length envelope \<le> 255"
  shows "hexToBytes (buildPacket envelope) = packetBytes envelope"
proof -
  have "\<forall>b \<in> set (packetBytes envelope). isByte b"
    using assms isByte_escapeData [OF assms(1)]
    by (simp add: packetBytes_def isByte_checksum) (simp add: isByte_def HEADER_def TAIL_def)
  then show ?thesis
    by (simp add: buildPacket_packetBytes hexToBytes_bytesToHex)
qed

lemma slice_envelope:
  "slice ([h, l] @ body @ [c, t]) 2 (int (length ([h, l] @ body @ [c, t])) - 2) = body"
  by (simp add: slice_def Let_def)

lemma envelope_region:
  "slice (packetBytes envelope) 2 (int (length (packetBytes envelope)) - 2) = escapeData envelope"
  unfolding packetBytes_def by (rule slice_envelope)


subsection \<open>Round trip\<close>

lemma parsePacket_envelope_entry:
  assumes "\<not> length (hexToBytes hx) < 5"
  shows "parsePacket hx ! 2 =
           \<lparr>label = ''Data Envelope'',
            hex = bytesToHex (slice (hexToBytes hx) 2 (int (length (hexToBytes hx)) - 2)),
            description = ''Unescaped Payload: [''
              @ bytesToHex (unescaped (unescapeData
                  (slice (hexToBytes hx) 2 (int (length (hexToBytes hx)) - 2)))) @ '']''\<rparr>"
  using assms by (simp add: parsePacket_def Let_def)

text \<open>
  The frame of the empty envelope has four bytes, fewer than \<open>parsePacket\<close> accepts: its
  breakdown is empty and has no Data Envelope entry.
\<close>

theorem round_trip_empty: "parsePacket (buildPacket []) = []"
  by code_simp

text \<open>
  C1, amended. For every envelope of bytes in 0..255 of length at most 255, unescaping the
  region of the frame between the length byte and the checksum and tail gives the envelope
  back, and the hexadecimal text of the envelope determines it. When the envelope is not
  empty, the Data Envelope entry of the decoded frame shows the escaped region and reports
  the envelope as the unescaped payload.
\<close>

theorem round_trip:
  assumes "\<forall>b \<in> set envelope. isByte b" and "length envelope \<le> 255"
  shows "unescaped (unescapeData (slice (hexToBytes (buildPacket envelope)) 2
             (int (length (hexToBytes (buildPacket envelope))) - 2))) = envelope
         \<and> hexToBytes (bytesToHex envelope) = envelope
         \<and> (envelope \<noteq> [] \<longrightarrow>
              parsePacket (buildPacket envelope) ! 2 =
                \<lparr>label = ''Data Envelope'', hex = bytesToHex (escapeData envelope),
                 description = ''Unescaped Payload: ['' @ bytesToHex envelope @ '']''\<rparr>)"
proof -
  have hb: "hexToBytes (buildPacket envelope) = packetBytes envelope"
    using assms by (rule hexToBytes_buildPacket)
  have region: "unescaped (unescapeData (slice (hexToBytes (buildPacket envelope)) 2
             (int (length (hexToBytes (buildPacket envelope))) - 2))) = envelope"
    by (simp only: hb envelope_region unescape_escape)
  have hexform: "hexToBytes (bytesToHex envelope) = envelope"
    using assms(1) by (rule hexToBytes_bytesToHex)
  have entry: "parsePacket (buildPacket envelope) ! 2 =
                \<lparr>label = ''Data Envelope'', hex = bytesToHex (escapeData envelope),
                 description = ''Unescaped Payload: ['' @ bytesToHex envelope @ '']''\<rparr>"
    if "envelope \<noteq> []"
  proof -
    have "0 < length envelope"
      using that by simp
    then have "0 < length (escapeData envelope)"
      using length_escapeData [of envelope] by linarith
    then have "\<not> length (hexToBytes (buildPacket envelope)) < 5"
      by (simp add: hb packetBytes_def)
    from parsePacket_envelope_entry [OF this] show ?thesis
      by (simp only: hb envelope_region unescape_escape)
  qed
  show ?thesis
    using region hexform entry by blast
qed

theorem round_trip_witness:
  "isByte 0x00 \<and> isByte 0xFD \<and> isByte 0xFF \<and> length [0x00 :: int, 0xFD, 0xFF] \<le> 255
   \<and> parsePacket (buildPacket [0x00, 0xFD, 0xFF]) ! 2 =
        \<lparr>label = ''Data Envelope'', hex = ''00 FD 02 FD 00'',
         description = ''Unescaped Payload: [00 FD FF]''\<rparr>"
proof -
  have h: "\<forall>b \<in> set [0x00, 0xFD, 0xFF]. isByte b" "length [0x00 :: int, 0xFD, 0xFF] \<le> 255"
    by (simp_all add: isByte_def)
  have e: "bytesToHex (escapeData [0x00, 0xFD, 0xFF]) = ''00 FD 02 FD 00''"
    by code_simp
  have u: "bytesToHex [0x00, 0xFD, 0xFF] = ''00 FD FF''"
    by code_simp
  from round_trip [OF h] have "parsePacket (buildPacket [0x00, 0xFD, 0xFF]) ! 2 =
        \<lparr>label = ''Data Envelope'', hex = bytesToHex (escapeData [0x00, 0xFD, 0xFF]),
         description = ''Unescaped Payload: ['' @ bytesToHex [0x00, 0xFD, 0xFF] @ '']''\<rparr>"
    by blast
  then have "parsePacket (buildPacket [0x00, 0xFD, 0xFF]) ! 2 =
        \<lparr>label = ''Data Envelope'', hex = ''00 FD 02 FD 00'',
         description = ''Unescaped Payload: [00 FD FF]''\<rparr>"
    by (simp only: e u append.simps)
  moreover have "isByte 0x00" "isByte 0xFD" "isByte 0xFF"
    by (simp_all add: isByte_def)
  ultimately show ?thesis
    using h(2) by blast
qed

subsection \<open>Insufficient data\<close>

text \<open>
  C5. An input that parses to fewer than five bytes has the empty breakdown; \<open>parsePacket\<close>
  has no failing branch, the empty list is its ordinary result.
\<close>

theorem parse_too_short:
  assumes "length (hexToBytes hx) < 5"
  shows "parsePacket hx = []"
  using assms by (simp add: parsePacket_def Let_def)

theorem parse_too_short_witness:
  "length (hexToBytes ''FE 00 7E FF'') < 5 \<and> parsePacket ''FE 00 7E FF'' = []"
proof -
  have h: "length (hexToBytes ''FE 00 7E FF'') < 5"
    by code_simp
  from parse_too_short [OF h] h show ?thesis
    by blast
qed

subsection \<open>A final escape byte\<close>

lemma complement_ESCAPE: "js_and (js_not ESCAPE) 0xFF = 0x02"
proof -
  have "js_and (js_not ESCAPE) 0xFF = 255 - ESCAPE"
    by (rule js_complement_byte) (simp_all add: ESCAPE_def)
  then show ?thesis
    by (simp add: ESCAPE_def)
qed

lemma unescape_append:
  "xs = [] \<or> last xs \<noteq> ESCAPE \<Longrightarrow>
     unescaped (unescapeData (xs @ ys)) = unescaped (unescapeData xs) @ unescaped (unescapeData ys)"
proof (induction xs rule: unescapeData.induct)
  case 1
  show ?case by simp
next
  case (2 b)
  then have "b \<noteq> ESCAPE" by simp
  then show ?case
    by (simp add: unescape_literal del: unescapeData.simps) simp
next
  case (3 b nxt rest)
  show ?case
  proof (cases "b = ESCAPE")
    case True
    have "rest = [] \<or> last rest \<noteq> ESCAPE"
      using "3.prems" by (cases rest) auto
    with "3.IH"(1) [OF True] True show ?thesis
      by (simp add: Let_def)
  next
    case False
    have "nxt # rest = [] \<or> last (nxt # rest) \<noteq> ESCAPE"
      using "3.prems" by simp
    with "3.IH"(2) [OF False] False show ?thesis
      by (simp add: Let_def)
  qed
qed

lemma unescape_escape_run:
  "unescaped (unescapeData (replicate (2 * k + 1) ESCAPE)) = replicate k 0x02 @ [ESCAPE]"
  "unescaped (unescapeData (replicate (2 * k) ESCAPE)) = replicate k 0x02"
  by (induction k) (simp_all add: Let_def complement_ESCAPE)

text \<open>
  An escape byte takes the byte after it as its operand, whatever that byte is: of two final
  escape bytes the second is consumed by the first and is not emitted.
\<close>

theorem trailing_escape_counterexample: "unescaped (unescapeData [0xFD, 0xFD]) = [0x02]"
  by (simp add: ESCAPE_def [symmetric] complement_ESCAPE)

text \<open>
  C4, amended. A final 0xFD is emitted literally exactly when it is not the operand of an
  escape byte before it, that is, when the input ends in an odd number of 0xFD bytes: after
  a prefix that does not end in 0xFD, a run of \<open>2k + 1\<close> escape bytes unescapes to \<open>k\<close>
  bytes 0x02 followed by a literal 0xFD, and a run of \<open>2k + 2\<close> to \<open>k + 1\<close> bytes 0x02.
  In particular the single byte 0xFD unescapes to itself.
\<close>

theorem trailing_escape:
  assumes "xs = [] \<or> last xs \<noteq> ESCAPE"
  shows "unescaped (unescapeData (xs @ replicate (2 * k + 1) ESCAPE))
           = unescaped (unescapeData xs) @ replicate k 0x02 @ [ESCAPE]
         \<and> unescaped (unescapeData (xs @ replicate (2 * k + 2) ESCAPE))
           = unescaped (unescapeData xs) @ replicate (k + 1) 0x02
         \<and> unescaped (unescapeData [0xFD]) = [0xFD]"
proof -
  have odd_run: "unescaped (unescapeData (xs @ replicate (2 * k + 1) ESCAPE))
           = unescaped (unescapeData xs) @ replicate k 0x02 @ [ESCAPE]"
    by (simp only: unescape_append [OF assms] unescape_escape_run(1))
  have "2 * k + 2 = 2 * (k + 1)"
    by simp
  then have "unescaped (unescapeData (replicate (2 * k + 2) ESCAPE)) = replicate (k + 1) 0x02"
    by (simp only: unescape_escape_run(2))
  then have even_run: "unescaped (unescapeData (xs @ replicate (2 * k + 2) ESCAPE))
           = unescaped (unescapeData xs) @ replicate (k + 1) 0x02"
    by (simp only: unescape_append [OF assms])
  have single: "unescaped (unescapeData [0xFD]) = [0xFD]"
    by simp
  show ?thesis
    using odd_run even_run single by blast
qed

theorem trailing_escape_witness:
  "last [0x00, 0x21] \<noteq> ESCAPE
   \<and> unescaped (unescapeData [0x00, 0x21, 0xFD]) = [0x00, 0x21, 0xFD]
   \<and> unescaped (unescapeData [0x00, 0x21, 0xFD, 0xFD, 0xFD]) = [0x00, 0x21, 0x02, 0xFD]"
proof -
  have h: "[0x00, 0x21 :: int] = [] \<or> last [0x00, 0x21] \<noteq> ESCAPE"
    by (simp add: ESCAPE_def)
  have u: "unescaped (unescapeData [0x00, 0x21]) = [0x00, 0x21]"
    by (simp add: ESCAPE_def)
  from trailing_escape [OF h, of 0] trailing_escape [OF h, of 1] u h show ?thesis
    by (simp add: ESCAPE_def numeral_eq_Suc)
qed

subsection \<open>Parsing hexadecimal text\<close>

lemma parseInt16_single: "parseInt16 [c] = hexDigitValue c"
  by (simp add: parseInt16_def)

lemma hexPairs_append_even:
  "even (length xs) \<Longrightarrow> hexPairs (xs @ ys) = hexPairs xs @ hexPairs ys"
  by (induction xs rule: hexPairs.induct) simp_all

lemma length_hexPairs: "length (hexPairs xs) = (length xs + 1) div 2"
  by (induction xs rule: hexPairs.induct) simp_all

text \<open>
  Three hexadecimal digits give two bytes: the third digit is parsed on its own.
\<close>

theorem hex_parsing_counterexample: "hexToBytes ''FE0'' = [0xFE, 0x00]"
  by code_simp

text \<open>
  C7, amended. The bytes depend on the hexadecimal digits of the input only: stripping the
  other characters first changes nothing. The digits are read in pairs, and a last digit
  left without a partner is not dropped: it is parsed alone, as one more byte holding the
  value of that digit, so that \<open>n\<close> digits give \<open>(n + 1) div 2\<close> bytes.
\<close>

theorem hex_parsing:
  "hexToBytes hx = hexToBytes (filter isHexDigit hx)
   \<and> length (hexToBytes hx) = (length (filter isHexDigit hx) + 1) div 2
   \<and> (odd (length (filter isHexDigit hx)) \<longrightarrow>
        hexToBytes hx = hexToBytes (butlast (filter isHexDigit hx))
                          @ [hexDigitValue (last (filter isHexDigit hx))])"
proof -
  let ?clean = "filter isHexDigit hx"
  have strip: "hexToBytes hx = hexToBytes ?clean"
    by (simp add: hexToBytes_def)
  have count: "length (hexToBytes hx) = (length ?clean + 1) div 2"
    by (simp add: hexToBytes_def length_hexPairs)
  have lone: "hexToBytes hx = hexToBytes (butlast ?clean) @ [hexDigitValue (last ?clean)]"
    if "odd (length ?clean)"
  proof -
    from that have ne: "?clean \<noteq> []"
      by auto
    then have split: "?clean = butlast ?clean @ [last ?clean]"
      by simp
    have ev: "even (length (butlast ?clean))"
      using that ne by (simp add: length_butlast)
    have all_hex: "filter isHexDigit (butlast ?clean) = butlast ?clean"
      by (rule filter_True) (auto dest: in_set_butlastD)
    have "hexPairs ?clean = hexPairs (butlast ?clean @ [last ?clean])"
      using split by simp
    also have "\<dots> = hexPairs (butlast ?clean) @ [hexDigitValue (last ?clean)]"
      by (simp only: hexPairs_append_even [OF ev] hexPairs.simps parseInt16_single)
    finally show ?thesis
      by (simp add: hexToBytes_def all_hex)
  qed
  show ?thesis
    using strip count lone by blast
qed

theorem hex_parsing_witness:
  "odd (length (filter isHexDigit ''fe 03 a''))
   \<and> hexToBytes ''fe 03 a'' = hexToBytes ''fe03'' @ [10]
   \<and> hexToBytes ''fe 03 a'' = [0xFE, 0x03, 0x0A]"
proof -
  have c: "filter isHexDigit ''fe 03 a'' = ''fe03a''"
    by code_simp
  have h: "odd (length (filter isHexDigit ''fe 03 a''))"
    by (simp only: c) simp
  have v: "hexDigitValue (last ''fe03a'') = 10"
    by code_simp
  have p: "hexToBytes ''fe03'' = [0xFE, 0x03]"
    by code_simp
  from hex_parsing [of "''fe 03 a''"] h
  have "hexToBytes ''fe 03 a'' = hexToBytes (butlast (filter isHexDigit ''fe 03 a''))
          @ [hexDigitValue (last (filter isHexDigit ''fe 03 a''))]"
    by blast
  then have "hexToBytes ''fe 03 a'' = hexToBytes (butlast ''fe03a'') @ [hexDigitValue (last ''fe03a'')]"
    by (simp only: c)
  then have "hexToBytes ''fe 03 a'' = hexToBytes ''fe03'' @ [10]"
    by (simp only: v butlast.simps) simp
  then show ?thesis
    using h p by simp
qed

subsection \<open>The simulated device\<close>

lemma length_region: "length (slice xs 2 (int (length xs) - 2)) = length xs - 4"
  by (simp add: slice_def Let_def) linarith

lemma length_unescaped: "length (unescaped (unescapeData ys)) \<le> length ys"
  by (induction ys rule: unescapeData.induct) (auto simp: Let_def)

lemma envelope_needs_frame:
  assumes "n \<le> length (requestEnvelope hx)"
  shows "n + 4 \<le> length (hexToBytes hx) \<or> n = 0"
proof -
  have "length (requestEnvelope hx) \<le> length (hexToBytes hx) - 4"
    unfolding requestEnvelope_def Let_def
    using length_unescaped [of "slice (hexToBytes hx) 2 (int (length (hexToBytes hx)) - 2)"]
    by (simp only: length_region)
  with assms show ?thesis
    by linarith
qed

lemma simulateResponse_short:
  "length (requestEnvelope hx) < 3 \<Longrightarrow> simulateResponse hx = None"
  by (simp add: simulateResponse_def requestEnvelope_def Let_def)

lemma simulateResponse_dispatch:
  assumes "3 \<le> length (requestEnvelope hx)"
  shows "simulateResponse hx =
     (let u = requestEnvelope hx
      in if u ! 1 = CommandCode_LOGIN then
           Some (buildPacket [0x00, u ! 1, SubCommand_RESPONSE, 0x01])
         else if u ! 1 = CommandCode_OUTLET_NAME then
           (if u ! 2 = SubCommand_GET
            then Some (buildPacket ([0x00, u ! 1, SubCommand_RESPONSE, numOr (js_index u 3) 0x01]
                                     @ asciiToBytes ''Outlet 1''))
            else Some (buildPacket [0x00, u ! 1, SubCommand_RESPONSE]))
         else if u ! 1 = CommandCode_POWER_OUTLETS then
           Some (buildPacket [0x00, u ! 1, SubCommand_RESPONSE, numOr (js_index u 3) 0x01, 0x01])
         else if u ! 1 = CommandCode_PING then
           Some (buildPacket [0x00, CommandCode_PING, SubCommand_RESPONSE])
         else None)"
proof -
  have "\<not> length (hexToBytes hx) < 5"
    using envelope_needs_frame [OF assms] by linarith
  moreover have "\<not> length (requestEnvelope hx) < 3"
    using assms by linarith
  ultimately show ?thesis
    unfolding simulateResponse_def requestEnvelope_def Let_def by simp
qed


text \<open>
  C9. Two requests whose unescaped envelopes have at least three bytes and the command byte
  LOGIN get the same response, the frame of the envelope 0x00, 0x02, 0x10, 0x01, whatever
  their destination, subcommand and credential bytes are.
\<close>

theorem login_noninterference:
  assumes "3 \<le> length (requestEnvelope r1)" and "requestEnvelope r1 ! 1 = CommandCode_LOGIN"
    and "3 \<le> length (requestEnvelope r2)" and "requestEnvelope r2 ! 1 = CommandCode_LOGIN"
  shows "simulateResponse r1 = simulateResponse r2
         \<and> simulateResponse r1 = Some (buildPacket [0x00, 0x02, 0x10, 0x01])"
proof -
  have "simulateResponse r = Some (buildPacket [0x00, 0x02, 0x10, 0x01])"
    if "3 \<le> length (requestEnvelope r)" and "requestEnvelope r ! 1 = CommandCode_LOGIN" for r
    using that(2)
    by (simp add: simulateResponse_dispatch [OF that(1)] Let_def CommandCode_LOGIN_def
        SubCommand_RESPONSE_def)
  from this [OF assms(1,2)] this [OF assms(3,4)] show ?thesis
    by simp
qed

theorem login_noninterference_witness:
  "requestEnvelope ''FE 07 00 02 01 61 7C 62 00 FF'' = [0x00, 0x02, 0x01, 0x61, 0x7C, 0x62]
   \<and> requestEnvelope ''FE 05 00 02 02 FD 00 58 13 FF'' = [0x00, 0x02, 0x02, 0xFF, 0x58]
   \<and> simulateResponse ''FE 07 00 02 01 61 7C 62 00 FF''
       = simulateResponse ''FE 05 00 02 02 FD 00 58 13 FF''
   \<and> simulateResponse ''FE 07 00 02 01 61 7C 62 00 FF'' = Some ''FE 04 00 02 10 01 15 FF''"
proof -
  have e1: "requestEnvelope ''FE 07 00 02 01 61 7C 62 00 FF'' = [0x00, 0x02, 0x01, 0x61, 0x7C, 0x62]"
    by code_simp
  have e2: "requestEnvelope ''FE 05 00 02 02 FD 00 58 13 FF'' = [0x00, 0x02, 0x02, 0xFF, 0x58]"
    by code_simp
  have b: "buildPacket [0x00, 0x02, 0x10, 0x01] = ''FE 04 00 02 10 01 15 FF''"
    by code_simp
  have h: "3 \<le> length (requestEnvelope ''FE 07 00 02 01 61 7C 62 00 FF'')"
    "requestEnvelope ''FE 07 00 02 01 61 7C 62 00 FF'' ! 1 = CommandCode_LOGIN"
    "3 \<le> length (requestEnvelope ''FE 05 00 02 02 FD 00 58 13 FF'')"
    "requestEnvelope ''FE 05 00 02 02 FD 00 58 13 FF'' ! 1 = CommandCode_LOGIN"
    by (simp_all only: e1 e2) (simp_all add: CommandCode_LOGIN_def)
  note t = login_noninterference [OF h]
  from t have same: "simulateResponse ''FE 07 00 02 01 61 7C 62 00 FF''
       = simulateResponse ''FE 05 00 02 02 FD 00 58 13 FF''"
    by blast
  from t have "simulateResponse ''FE 07 00 02 01 61 7C 62 00 FF''
       = Some (buildPacket [0x00, 0x02, 0x10, 0x01])"
    by blast
  then have frame: "simulateResponse ''FE 07 00 02 01 61 7C 62 00 FF''
       = Some ''FE 04 00 02 10 01 15 FF''"
    by (simp only: b)
  show ?thesis
    using e1 e2 same frame by blast
qed

text \<open>
  C10. For a POWER_OUTLETS request, and for an OUTLET_NAME request with subcommand GET, the
  response carries the index 0x01 when the request has no fourth unescaped byte and also
  when that byte is 0x00: the two requests get the same response.
\<close>

theorem zero_index_fallback:
  assumes "3 \<le> length (requestEnvelope hx)"
    and "requestEnvelope hx ! 1 = CommandCode_POWER_OUTLETS
         \<or> (requestEnvelope hx ! 1 = CommandCode_OUTLET_NAME
            \<and> requestEnvelope hx ! 2 = SubCommand_GET)"
    and "length (requestEnvelope hx) < 4 \<or> requestEnvelope hx ! 3 = 0"
  shows "simulateResponse hx =
           Some (buildPacket ([0x00, requestEnvelope hx ! 1, 0x10, 0x01]
                   @ (if requestEnvelope hx ! 1 = CommandCode_POWER_OUTLETS then [0x01]
                      else asciiToBytes ''Outlet 1'')))"
proof -
  have idx: "numOr (js_index (requestEnvelope hx) 3) 0x01 = 0x01"
    using assms(3) by (auto simp: numOr_def js_index_def)
  show ?thesis
    using assms(2)
    by (auto simp: simulateResponse_dispatch [OF assms(1)] Let_def idx CommandCode_LOGIN_def
        CommandCode_OUTLET_NAME_def CommandCode_POWER_OUTLETS_def SubCommand_RESPONSE_def)
qed

theorem zero_index_fallback_witness:
  "requestEnvelope ''FE 03 00 20 02 23 FF'' = [0x00, 0x20, 0x02]
   \<and> requestEnvelope ''FE 04 00 20 02 00 24 FF'' = [0x00, 0x20, 0x02, 0x00]
   \<and> simulateResponse ''FE 03 00 20 02 23 FF'' = Some ''FE 05 00 20 10 01 01 35 FF''
   \<and> simulateResponse ''FE 04 00 20 02 00 24 FF'' = Some ''FE 05 00 20 10 01 01 35 FF''"
proof -
  have e1: "requestEnvelope ''FE 03 00 20 02 23 FF'' = [0x00, 0x20, 0x02]"
    by code_simp
  have e2: "requestEnvelope ''FE 04 00 20 02 00 24 FF'' = [0x00, 0x20, 0x02, 0x00]"
    by code_simp
  have b: "buildPacket ([0x00, 0x20, 0x10, 0x01] @ [0x01]) = ''FE 05 00 20 10 01 01 35 FF''"
    by code_simp
  have h1: "3 \<le> length (requestEnvelope ''FE 03 00 20 02 23 FF'')"
    "requestEnvelope ''FE 03 00 20 02 23 FF'' ! 1 = CommandCode_POWER_OUTLETS
       \<or> (requestEnvelope ''FE 03 00 20 02 23 FF'' ! 1 = CommandCode_OUTLET_NAME
          \<and> requestEnvelope ''FE 03 00 20 02 23 FF'' ! 2 = SubCommand_GET)"
    "length (requestEnvelope ''FE 03 00 20 02 23 FF'') < 4
       \<or> requestEnvelope ''FE 03 00 20 02 23 FF'' ! 3 = 0"
    by (simp_all only: e1) (simp_all add: CommandCode_POWER_OUTLETS_def)
  have h2: "3 \<le> length (requestEnvelope ''FE 04 00 20 02 00 24 FF'')"
    "requestEnvelope ''FE 04 00 20 02 00 24 FF'' ! 1 = CommandCode_POWER_OUTLETS
       \<or> (requestEnvelope ''FE 04 00 20 02 00 24 FF'' ! 1 = CommandCode_OUTLET_NAME
          \<and> requestEnvelope ''FE 04 00 20 02 00 24 FF'' ! 2 = SubCommand_GET)"
    "length (requestEnvelope ''FE 04 00 20 02 00 24 FF'') < 4
       \<or> requestEnvelope ''FE 04 00 20 02 00 24 FF'' ! 3 = 0"
    by (simp_all only: e2) (simp_all add: CommandCode_POWER_OUTLETS_def)
  have r1: "simulateResponse ''FE 03 00 20 02 23 FF'' = Some ''FE 05 00 20 10 01 01 35 FF''"
    using zero_index_fallback [OF h1] by (simp only: e1) (simp add: CommandCode_POWER_OUTLETS_def b [simplified])
  have r2: "simulateResponse ''FE 04 00 20 02 00 24 FF'' = Some ''FE 05 00 20 10 01 01 35 FF''"
    using zero_index_fallback [OF h2] by (simp only: e2) (simp add: CommandCode_POWER_OUTLETS_def b [simplified])
  show ?thesis
    using e1 e2 r1 r2 by blast
qed


lemma simulateResponse_answered:
  assumes "3 \<le> length (requestEnvelope hx)"
    and "requestEnvelope hx ! 1 = CommandCode_LOGIN
         \<or> requestEnvelope hx ! 1 = CommandCode_OUTLET_NAME
         \<or> requestEnvelope hx ! 1 = CommandCode_POWER_OUTLETS
         \<or> requestEnvelope hx ! 1 = CommandCode_PING"
  shows "simulateResponse hx \<noteq> None"
  using assms(2) by (auto simp: simulateResponse_dispatch [OF assms(1)] Let_def)

text \<open>
  An OUTLET_NAME request with subcommand SET is answered, by the frame of the envelope
  0x00, 0x21, 0x10.
\<close>

theorem outlet_name_counterexample:
  "requestEnvelope ''FE 03 00 21 01 23 FF'' = [0x00, 0x21, 0x01]
   \<and> simulateResponse ''FE 03 00 21 01 23 FF'' = Some ''FE 03 00 21 10 32 FF''"
  by code_simp

text \<open>
  C8, amended. An OUTLET_NAME request with subcommand GET is answered by the frame of the
  envelope 0x00, OUTLET_NAME, RESPONSE, the requested index or 0x01, and the characters of
  "Outlet 1". An OUTLET_NAME request with any other subcommand is answered too, by the frame
  of the bare envelope 0x00, OUTLET_NAME, RESPONSE. No response is given exactly when the
  request has fewer than three unescaped envelope bytes or its command is none of LOGIN,
  OUTLET_NAME, POWER_OUTLETS and PING.
\<close>

theorem outlet_name_response:
  assumes "u = requestEnvelope hx"
  shows "(3 \<le> length u \<and> u ! 1 = CommandCode_OUTLET_NAME \<and> u ! 2 = SubCommand_GET \<longrightarrow>
            simulateResponse hx =
              Some (buildPacket ([0x00, 0x21, 0x10, (if 3 < length u \<and> u ! 3 \<noteq> 0 then u ! 3 else 0x01)]
                      @ asciiToBytes ''Outlet 1'')))
         \<and> (3 \<le> length u \<and> u ! 1 = CommandCode_OUTLET_NAME \<and> u ! 2 \<noteq> SubCommand_GET \<longrightarrow>
            simulateResponse hx = Some (buildPacket [0x00, 0x21, 0x10]))
         \<and> (3 \<le> length u \<and> u ! 1 \<noteq> CommandCode_LOGIN \<and> u ! 1 \<noteq> CommandCode_OUTLET_NAME
              \<and> u ! 1 \<noteq> CommandCode_POWER_OUTLETS \<and> u ! 1 \<noteq> CommandCode_PING \<longrightarrow>
            simulateResponse hx = None)
         \<and> (length u < 3 \<longrightarrow> simulateResponse hx = None)
         \<and> (simulateResponse hx = None \<longleftrightarrow>
              length u < 3
              \<or> (u ! 1 \<noteq> CommandCode_LOGIN \<and> u ! 1 \<noteq> CommandCode_OUTLET_NAME
                  \<and> u ! 1 \<noteq> CommandCode_POWER_OUTLETS \<and> u ! 1 \<noteq> CommandCode_PING))"
proof -
  have idx: "numOr (js_index u 3) 0x01 = (if 3 < length u \<and> u ! 3 \<noteq> 0 then u ! 3 else 0x01)"
    by (simp add: numOr_def js_index_def)
  have get: "simulateResponse hx =
              Some (buildPacket ([0x00, 0x21, 0x10, (if 3 < length u \<and> u ! 3 \<noteq> 0 then u ! 3 else 0x01)]
                      @ asciiToBytes ''Outlet 1''))"
    if "3 \<le> length u" "u ! 1 = CommandCode_OUTLET_NAME" "u ! 2 = SubCommand_GET"
    using that idx unfolding assms
    by (simp add: simulateResponse_dispatch Let_def CommandCode_LOGIN_def
        CommandCode_OUTLET_NAME_def SubCommand_RESPONSE_def)
  have other: "simulateResponse hx = Some (buildPacket [0x00, 0x21, 0x10])"
    if "3 \<le> length u" "u ! 1 = CommandCode_OUTLET_NAME" "u ! 2 \<noteq> SubCommand_GET"
    using that unfolding assms
    by (simp add: simulateResponse_dispatch Let_def CommandCode_LOGIN_def
        CommandCode_OUTLET_NAME_def SubCommand_RESPONSE_def)
  have unknown: "simulateResponse hx = None"
    if "3 \<le> length u" "u ! 1 \<noteq> CommandCode_LOGIN" "u ! 1 \<noteq> CommandCode_OUTLET_NAME"
      "u ! 1 \<noteq> CommandCode_POWER_OUTLETS" "u ! 1 \<noteq> CommandCode_PING"
    using that unfolding assms
    by (simp add: simulateResponse_dispatch Let_def)
  have short: "simulateResponse hx = None" if "length u < 3"
    using that unfolding assms by (rule simulateResponse_short)
  have answered: "simulateResponse hx \<noteq> None"
    if "\<not> length u < 3"
      and "u ! 1 = CommandCode_LOGIN \<or> u ! 1 = CommandCode_OUTLET_NAME
           \<or> u ! 1 = CommandCode_POWER_OUTLETS \<or> u ! 1 = CommandCode_PING"
  proof -
    have "3 \<le> length (requestEnvelope hx)"
      using that(1) unfolding assms by linarith
    then show ?thesis
      using that(2) unfolding assms by (rule simulateResponse_answered)
  qed
  have silent: "simulateResponse hx = None \<longleftrightarrow>
              length u < 3
              \<or> (u ! 1 \<noteq> CommandCode_LOGIN \<and> u ! 1 \<noteq> CommandCode_OUTLET_NAME
                  \<and> u ! 1 \<noteq> CommandCode_POWER_OUTLETS \<and> u ! 1 \<noteq> CommandCode_PING)"
  proof (cases "length u < 3")
    case True
    with short show ?thesis
      by blast
  next
    case False
    then have "3 \<le> length u"
      by linarith
    with False unknown answered [OF False] show ?thesis
      by blast
  qed
  show ?thesis
    using get other unknown short silent by blast
qed

theorem outlet_name_response_witness:
  "requestEnvelope ''FE 04 00 21 02 05 2A FF'' = [0x00, 0x21, 0x02, 0x05]
   \<and> simulateResponse ''FE 04 00 21 02 05 2A FF''
       = Some ''FE 0C 00 21 10 05 4F 75 74 6C 65 74 20 31 0E FF''
   \<and> requestEnvelope ''FE 03 00 21 01 23 FF'' = [0x00, 0x21, 0x01]
   \<and> simulateResponse ''FE 03 00 21 01 23 FF'' = Some ''FE 03 00 21 10 32 FF''
   \<and> requestEnvelope ''FE 03 00 99 02 1C FF'' = [0x00, 0x99, 0x02]
   \<and> simulateResponse ''FE 03 00 99 02 1C FF'' = None
   \<and> requestEnvelope ''FE 03 00 01 02 04 FF'' = [0x00, 0x01, 0x02]
   \<and> simulateResponse ''FE 03 00 01 02 04 FF'' \<noteq> None
   \<and> requestEnvelope ''FE 04 00 20 01 03 28 FF'' = [0x00, 0x20, 0x01, 0x03]
   \<and> simulateResponse ''FE 04 00 20 01 03 28 FF'' \<noteq> None"
proof -
  have e1: "requestEnvelope ''FE 04 00 21 02 05 2A FF'' = [0x00, 0x21, 0x02, 0x05]"
    by code_simp
  have e2: "requestEnvelope ''FE 03 00 21 01 23 FF'' = [0x00, 0x21, 0x01]"
    by code_simp
  have e3: "requestEnvelope ''FE 03 00 99 02 1C FF'' = [0x00, 0x99, 0x02]"
    by code_simp
  have e4: "requestEnvelope ''FE 03 00 01 02 04 FF'' = [0x00, 0x01, 0x02]"
    by code_simp
  have e5: "requestEnvelope ''FE 04 00 20 01 03 28 FF'' = [0x00, 0x20, 0x01, 0x03]"
    by code_simp
  have b1: "buildPacket ([0x00, 0x21, 0x10, 0x05] @ asciiToBytes ''Outlet 1'')
       = ''FE 0C 00 21 10 05 4F 75 74 6C 65 74 20 31 0E FF''"
    by code_simp
  have b2: "buildPacket [0x00, 0x21, 0x10] = ''FE 03 00 21 10 32 FF''"
    by code_simp
  have "simulateResponse ''FE 04 00 21 02 05 2A FF''
       = Some (buildPacket ([0x00, 0x21, 0x10, 0x05] @ asciiToBytes ''Outlet 1''))"
    using outlet_name_response [OF e1 [symmetric]]
    by (simp add: CommandCode_OUTLET_NAME_def SubCommand_GET_def)
  then have r1: "simulateResponse ''FE 04 00 21 02 05 2A FF''
       = Some ''FE 0C 00 21 10 05 4F 75 74 6C 65 74 20 31 0E FF''"
    by (simp only: b1)
  have "simulateResponse ''FE 03 00 21 01 23 FF'' = Some (buildPacket [0x00, 0x21, 0x10])"
    using outlet_name_response [OF e2 [symmetric]]
    by (simp add: CommandCode_OUTLET_NAME_def SubCommand_GET_def)
  then have r2: "simulateResponse ''FE 03 00 21 01 23 FF'' = Some ''FE 03 00 21 10 32 FF''"
    by (simp only: b2)
  have r3: "simulateResponse ''FE 03 00 99 02 1C FF'' = None"
    using outlet_name_response [OF e3 [symmetric]]
    by (simp add: CommandCode_OUTLET_NAME_def CommandCode_LOGIN_def
        CommandCode_POWER_OUTLETS_def CommandCode_PING_def)
  have r4: "simulateResponse ''FE 03 00 01 02 04 FF'' \<noteq> None"
    using outlet_name_response [OF e4 [symmetric]]
    by (simp add: CommandCode_PING_def)
  have r5: "simulateResponse ''FE 04 00 20 01 03 28 FF'' \<noteq> None"
    using outlet_name_response [OF e5 [symmetric]]
    by (simp add: CommandCode_POWER_OUTLETS_def)
  show ?thesis
    using e1 e2 e3 e4 e5 r1 r2 r3 r4 r5 by blast
qed

subsection \<open>The fields of the breakdown\<close>

lemma label_fieldEntries:
  "map label (fieldEntries u) =
     [''Destination'', ''Command''] @ (if 3 \<le> length u then [''Subcommand/Param''] else [])"
  by (simp add: fieldEntries_def Let_def js_index_def)

lemma fieldEntries_first:
  "fieldEntries u ! 0 =
     \<lparr>label = ''Destination'', hex = bytesToHex [u ! 0],
      description = (if u ! 0 = 0 then ''Broadcast/Device''
                     else ''Target '' @ numToString (u ! 0) 10)\<rparr>"
  "fieldEntries u ! 1 =
     \<lparr>label = ''Command'', hex = bytesToHex [u ! 1],
      description = nameOr CommandCode (u ! 1) ''Unknown Command''
                      @ '' (0x'' @ padStart (numToString (u ! 1) 16) 2 CHR ''0'' @ '')''\<rparr>"
  by (simp_all add: fieldEntries_def Let_def)

lemma nth_after_three: "([a, b, c] @ xs) ! (3 + i) = xs ! i"
  using nth_append_length_plus [of "[a, b, c]" xs i] by simp

lemma parsePacket_shape:
  assumes "5 \<le> length (hexToBytes hx)"
  shows "\<exists>h l e c t. parsePacket hx =
           [h, l, e] @ (if 2 \<le> length (requestEnvelope hx)
                        then fieldEntries (requestEnvelope hx) else []) @ [c, t]
         \<and> label h = ''Header'' \<and> label l = ''Length'' \<and> label e = ''Data Envelope''
         \<and> label c = ''Checksum'' \<and> label t = ''Tail''"
proof -
  have "\<not> length (hexToBytes hx) < 5"
    using assms by linarith
  then show ?thesis
    unfolding parsePacket_def requestEnvelope_def Let_def by simp
qed

text \<open>
  A frame of five bytes has one envelope byte: its breakdown has neither a Destination nor
  a Command entry.
\<close>

theorem breakdown_fields_counterexample:
  "length (hexToBytes ''FE 01 00 7F FF'') = 5
   \<and> map label (parsePacket ''FE 01 00 7F FF'')
       = [''Header'', ''Length'', ''Data Envelope'', ''Checksum'', ''Tail'']"
  by code_simp

text \<open>
  C6, amended. For an input of at least five bytes the breakdown always has the Header,
  Length, Data Envelope, Checksum and Tail entries. When the unescaped envelope has at least
  two bytes, it has a Destination entry for the first (0x00 described as Broadcast/Device,
  any other value as a target) and a Command entry for the second, and the Subcommand/Param
  entry is present exactly when there is a third byte. When the unescaped envelope has fewer
  than two bytes, the Destination, Command and Subcommand/Param entries are all left out.
\<close>

theorem breakdown_fields:
  assumes "5 \<le> length (hexToBytes hx)" and "u = requestEnvelope hx"
  shows "map label (parsePacket hx) =
           [''Header'', ''Length'', ''Data Envelope'']
           @ (if 2 \<le> length u
              then [''Destination'', ''Command'']
                   @ (if 3 \<le> length u then [''Subcommand/Param''] else [])
              else [])
           @ [''Checksum'', ''Tail'']
         \<and> (2 \<le> length u \<longrightarrow>
              parsePacket hx ! 3 =
                \<lparr>label = ''Destination'', hex = bytesToHex [u ! 0],
                 description = (if u ! 0 = 0 then ''Broadcast/Device''
                                else ''Target '' @ numToString (u ! 0) 10)\<rparr>
              \<and> parsePacket hx ! 4 =
                \<lparr>label = ''Command'', hex = bytesToHex [u ! 1],
                 description = nameOr CommandCode (u ! 1) ''Unknown Command''
                                 @ '' (0x'' @ padStart (numToString (u ! 1) 16) 2 CHR ''0''
                                 @ '')''\<rparr>)"
proof -
  from parsePacket_shape [OF assms(1)] obtain h l e c t where
    shape: "parsePacket hx = [h, l, e] @ (if 2 \<le> length u then fieldEntries u else []) @ [c, t]"
    and labels: "label h = ''Header''" "label l = ''Length''" "label e = ''Data Envelope''"
      "label c = ''Checksum''" "label t = ''Tail''"
    unfolding assms(2) by blast
  have names: "map label (parsePacket hx) =
           [''Header'', ''Length'', ''Data Envelope'']
           @ (if 2 \<le> length u
              then [''Destination'', ''Command'']
                   @ (if 3 \<le> length u then [''Subcommand/Param''] else [])
              else [])
           @ [''Checksum'', ''Tail'']"
    by (simp add: shape labels label_fieldEntries)
  have len: "2 \<le> length (fieldEntries u)"
    using arg_cong [OF label_fieldEntries [of u], of length] by (simp split: if_splits)
  have entries: "parsePacket hx ! 3 = fieldEntries u ! 0 \<and> parsePacket hx ! 4 = fieldEntries u ! 1"
    if "2 \<le> length u"
  proof -
    have "parsePacket hx = [h, l, e] @ fieldEntries u @ [c, t]"
      using that by (simp add: shape)
    moreover have "([h, l, e] @ fieldEntries u @ [c, t]) ! 3 = fieldEntries u ! 0"
      using len nth_after_three [of h l e "fieldEntries u @ [c, t]" 0]
      by (auto simp: nth_append)
    moreover have "([h, l, e] @ fieldEntries u @ [c, t]) ! 4 = fieldEntries u ! 1"
      using len nth_after_three [of h l e "fieldEntries u @ [c, t]" 1]
      by (auto simp: nth_append)
    ultimately show ?thesis
      by simp
  qed
  show ?thesis
    using names entries by (simp only: fieldEntries_first) blast
qed

theorem breakdown_fields_witness:
  "5 \<le> length (hexToBytes ''FE 03 00 21 02 24 FF'')
   \<and> requestEnvelope ''FE 03 00 21 02 24 FF'' = [0x00, 0x21, 0x02]
   \<and> map label (parsePacket ''FE 03 00 21 02 24 FF'')
       = [''Header'', ''Length'', ''Data Envelope'', ''Destination'', ''Command'',
          ''Subcommand/Param'', ''Checksum'', ''Tail'']
   \<and> parsePacket ''FE 03 00 21 02 24 FF'' ! 3
       = \<lparr>label = ''Destination'', hex = ''00'', description = ''Broadcast/Device''\<rparr>
   \<and> parsePacket ''FE 03 00 21 02 24 FF'' ! 4
       = \<lparr>label = ''Command'', hex = ''21'', description = ''OUTLET_NAME (0x21)''\<rparr>"
proof -
  have h: "5 \<le> length (hexToBytes ''FE 03 00 21 02 24 FF'')"
    by code_simp
  have e: "requestEnvelope ''FE 03 00 21 02 24 FF'' = [0x00, 0x21, 0x02]"
    by code_simp
  have d: "bytesToHex [0x00] = ''00''" "bytesToHex [0x21] = ''21''"
    "nameOr CommandCode 0x21 ''Unknown Command'' @ '' (0x''
       @ padStart (numToString 0x21 16) 2 CHR ''0'' @ '')'' = ''OUTLET_NAME (0x21)''"
    by code_simp+
  note t = breakdown_fields [OF h e [symmetric]]
  from t have names: "map label (parsePacket ''FE 03 00 21 02 24 FF'')
       = [''Header'', ''Length'', ''Data Envelope'', ''Destination'', ''Command'',
          ''Subcommand/Param'', ''Checksum'', ''Tail'']"
    by simp
  from t have "parsePacket ''FE 03 00 21 02 24 FF'' ! 3
       = \<lparr>label = ''Destination'', hex = bytesToHex [0x00], description = ''Broadcast/Device''\<rparr>"
    by simp
  then have dest: "parsePacket ''FE 03 00 21 02 24 FF'' ! 3
       = \<lparr>label = ''Destination'', hex = ''00'', description = ''Broadcast/Device''\<rparr>"
    by (simp only: d)
  from t have "parsePacket ''FE 03 00 21 02 24 FF'' ! 4
       = \<lparr>label = ''Command'', hex = bytesToHex [0x21],
          description = nameOr CommandCode 0x21 ''Unknown Command'' @ '' (0x''
            @ padStart (numToString 0x21 16) 2 CHR ''0'' @ '')''\<rparr>"
    by simp
  then have cmd: "parsePacket ''FE 03 00 21 02 24 FF'' ! 4
       = \<lparr>label = ''Command'', hex = ''21'', description = ''OUTLET_NAME (0x21)''\<rparr>"
    by (simp only: d)
  show ?thesis
    using h e names dest cmd by blast
qed

end
